theory Spec2Isabelle
  imports Main
begin

section \<open>Python strings\<close>

text \<open>
  A Python \<open>str\<close> is a sequence of code points. The model reads a HOL \<open>char\<close> as the
  code point of the same number, so it covers the strings whose code points are below 256.
  The fixed texts of \<open>main\<close> that lie outside this range (the rules, the arrow prompt) are
  constructors of the output events below.
\<close>

definition isdecimal_char :: "char \<Rightarrow> bool" where
  "isdecimal_char c = (48 \<le> (of_char c :: nat) \<and> (of_char c :: nat) \<le> 57)"

text \<open>
  \<open>str.isdigit\<close> accepts, below 256, the ten decimal digits and the superscript digits
  U+00B2, U+00B3 and U+00B9.
\<close>

definition isdigit_char :: "char \<Rightarrow> bool" where
  "isdigit_char c =
     (isdecimal_char c \<or> (of_char c :: nat) = 178 \<or> (of_char c :: nat) = 179
        \<or> (of_char c :: nat) = 185)"

definition isdigit :: "string \<Rightarrow> bool" where
  "isdigit s = (s \<noteq> [] \<and> list_all isdigit_char s)"

definition isdecimal :: "string \<Rightarrow> bool" where
  "isdecimal s = (s \<noteq> [] \<and> list_all isdecimal_char s)"

definition digit_value :: "char \<Rightarrow> nat" where
  "digit_value c = of_char c - 48"

definition decimal_value :: "string \<Rightarrow> nat" where
  "decimal_value s = foldl (\<lambda>acc c. 10 * acc + digit_value c) 0 s"

text \<open>
  \<open>sys.get_int_max_str_digits()\<close> at its default: \<open>int\<close> refuses a string of more digit
  characters than this (leading zeros count).
\<close>

definition int_max_str_digits :: nat where
  "int_max_str_digits = 4300"

text \<open>
  \<open>sys.maxsize\<close> of a 64-bit build: a list or dict never holds more items, so no position
  number is greater.
\<close>

definition sys_maxsize :: nat where
  "sys_maxsize = 2 ^ 63 - 1"

text \<open>
  \<open>int(part)\<close> for a \<open>part\<close> that passed \<open>isdigit\<close>: a string of at most
  \<open>int_max_str_digits\<close> decimal digits has its decimal value; a string holding a
  superscript digit, and a string of more digits than the limit, raise \<open>ValueError\<close>
  (\<open>None\<close> here).
\<close>

definition int_of_digits :: "string \<Rightarrow> nat option" where
  "int_of_digits s =
     (if isdecimal s \<and> length s \<le> int_max_str_digits then Some (decimal_value s) else None)"

text \<open>\<open>f"{i}"\<close> for a non-negative integer: its decimal digits, most significant first.\<close>

definition digit_char :: "nat \<Rightarrow> char" where
  "digit_char n = char_of (48 + n)"

function str_of_nat :: "nat \<Rightarrow> string" where
  "str_of_nat n =
     (if n < 10 then [digit_char n] else str_of_nat (n div 10) @ [digit_char (n mod 10)])"
  by pat_completeness auto
termination
  by (relation "measure id") auto

declare str_of_nat.simps [simp del]

text \<open>\<open>str.isspace\<close> on one code point below 256.\<close>

definition isspace :: "char \<Rightarrow> bool" where
  "isspace c =
     (let n = (of_char c :: nat)
      in (9 \<le> n \<and> n \<le> 13) \<or> (28 \<le> n \<and> n \<le> 32) \<or> n = 133 \<or> n = 160)"

definition lstrip :: "string \<Rightarrow> string" where
  "lstrip s = dropWhile isspace s"

definition rstrip :: "string \<Rightarrow> string" where
  "rstrip s = rev (dropWhile isspace (rev s))"

definition strip :: "string \<Rightarrow> string" where
  "strip s = rstrip (lstrip s)"

text \<open>\<open>str.lower\<close> on code points below 256: A to Z and the accented capitals move by 32.\<close>

definition lower_char :: "char \<Rightarrow> char" where
  "lower_char c =
     (let n = (of_char c :: nat)
      in if (65 \<le> n \<and> n \<le> 90) \<or> (192 \<le> n \<and> n \<le> 222 \<and> n \<noteq> 215)
         then char_of (n + 32) else c)"

definition lower :: "string \<Rightarrow> string" where
  "lower s = map lower_char s"

text \<open>\<open>s.split(sep)\<close> for a one-character separator: never the empty list.\<close>

fun split :: "char \<Rightarrow> string \<Rightarrow> string list" where
  "split sep [] = [[]]"
| "split sep (c # cs) =
     (if c = sep then [] # split sep cs
      else (case split sep cs of
              [] \<Rightarrow> [[c]]
            | w # ws \<Rightarrow> (c # w) # ws))"

text \<open>\<open>sep.join(parts)\<close>, used to write dotted paths down.\<close>

fun join :: "char \<Rightarrow> string list \<Rightarrow> string" where
  "join sep [] = []"
| "join sep [w] = w"
| "join sep (w # v # ws) = w @ sep # join sep (v # ws)"

section \<open>The catalog\<close>

text \<open>
  \<open>SNIPPETS\<close> is a dict whose values are dicts or strings. A dict is kept as the list of
  its items in insertion order; Python's dicts hold each key once, which is \<open>wf_items\<close>.
\<close>

datatype node = Leaf string | Interior "(string \<times> node) list"

type_synonym items = "(string \<times> node) list"

fun wf_node :: "node \<Rightarrow> bool" where
  "wf_node (Leaf s) = True"
| "wf_node (Interior kids) =
     (distinct (map fst kids) \<and> list_all (\<lambda>kv. wf_node (snd kv)) kids)"

definition wf_items :: "items \<Rightarrow> bool" where
  "wf_items kids = wf_node (Interior kids)"

datatype pyerr = AttributeError | TypeError | ValueError | IndexError | KeyError | EOFError

section \<open>get\_nested\<close>

text \<open>
  \<open>xs[i]\<close> on a list of length \<open>n\<close>: the element at \<open>i\<close> for \<open>0 \<le> i < n\<close>, the element
  at \<open>n + i\<close> for \<open>-n \<le> i < 0\<close>, and \<open>IndexError\<close> otherwise.
\<close>

definition list_getitem :: "'a list \<Rightarrow> int \<Rightarrow> pyerr + 'a" where
  "list_getitem xs i =
     (if 0 \<le> i \<and> i < int (length xs) then Inr (xs ! nat i)
      else if i < 0 \<and> - int (length xs) \<le> i then Inr (xs ! nat (int (length xs) + i))
      else Inl IndexError)"

text \<open>\<open>d[key]\<close> on a dict.\<close>

definition dict_getitem :: "(string \<times> 'a) list \<Rightarrow> string \<Rightarrow> pyerr + 'a" where
  "dict_getitem kvs key = (case map_of kvs key of None \<Rightarrow> Inl KeyError | Some v \<Rightarrow> Inr v)"

text \<open>
  The body of the loop of \<open>get_nested\<close>, for one \<open>part\<close>. On a string, \<open>current.values()\<close>
  raises \<open>AttributeError\<close> and \<open>current[part]\<close> raises \<open>TypeError\<close>; \<open>int(part)\<close> is
  evaluated before \<open>current.values()\<close>.
\<close>

definition get_nested_step :: "node \<Rightarrow> string \<Rightarrow> pyerr + node" where
  "get_nested_step current part =
     (if isdigit part then
        (case int_of_digits part of
           None \<Rightarrow> Inl ValueError
         | Some n \<Rightarrow>
             (let idx = int n - 1
              in case current of
                   Leaf s \<Rightarrow> Inl AttributeError
                 | Interior kids \<Rightarrow> list_getitem (map snd kids) idx))
      else
        (case current of
           Leaf s \<Rightarrow> Inl TypeError
         | Interior kids \<Rightarrow> dict_getitem kids part))"

fun get_nested_loop :: "node \<Rightarrow> string list \<Rightarrow> pyerr + node" where
  "get_nested_loop current [] = Inr current"
| "get_nested_loop current (part # parts) =
     (case get_nested_step current part of
        Inl e \<Rightarrow> Inl e
      | Inr nxt \<Rightarrow> get_nested_loop nxt parts)"

definition get_nested :: "node \<Rightarrow> string \<Rightarrow> pyerr + node" where
  "get_nested d path = get_nested_loop d (split (CHR ''.'') path)"

section \<open>Output\<close>

text \<open>
  What the program does to the outside, in order: one event for each \<open>print\<close>, each
  \<open>input\<close> (its prompt) and each \<open>pyperclip.copy\<close>. \<open>Print s\<close> is \<open>print(s)\<close>.
  \<open>PrintRuleTop\<close> is \<open>print("\n" + "=" * 70)\<close> and \<open>PrintRuleBottom\<close> is
  \<open>print("=" * 70 + "\n")\<close> with the source's double-line character, \<open>PrintSeparator\<close> is
  the line of 60 dashes, \<open>PrintInstallHint\<close> the hint to install pyperclip.
\<close>

datatype prompt = SelectionPrompt | CopyPrompt | AnotherPrompt

datatype event =
    Print string
  | PrintRuleTop
  | PrintRuleBottom
  | PrintSeparator
  | PrintInstallHint
  | Input prompt
  | ClipboardCopy string

definition py_print :: "string \<Rightarrow> event list \<Rightarrow> event list" where
  "py_print s out = out @ [Print s]"

section \<open>print\_menu\<close>

definition indent :: "nat \<Rightarrow> string" where
  "indent level = concat (replicate level ''  '')"

text \<open>The two lines \<open>print_menu\<close> can print for the child \<open>k\<close> numbered \<open>i\<close>.\<close>

definition category_line :: "nat \<Rightarrow> string \<Rightarrow> nat \<Rightarrow> string \<Rightarrow> string" where
  "category_line level prefix i k = indent level @ prefix @ str_of_nat i @ '') '' @ k @ ''/''"

definition snippet_line :: "nat \<Rightarrow> string \<Rightarrow> nat \<Rightarrow> string \<Rightarrow> string" where
  "snippet_line level prefix i k = indent level @ prefix @ str_of_nat i @ '') '' @ k"

text \<open>
  \<open>print_menu_loop i rest\<close> is the \<open>for\<close> loop of \<open>print_menu\<close> at the item numbered \<open>i\<close>,
  with \<open>rest\<close> the items still to come; the last argument is what was printed so far.
  The interpreter's recursion limit is not modelled.
\<close>

fun print_menu :: "items \<Rightarrow> nat \<Rightarrow> string \<Rightarrow> event list \<Rightarrow> event list"
  and print_menu_loop :: "nat \<Rightarrow> items \<Rightarrow> nat \<Rightarrow> string \<Rightarrow> event list \<Rightarrow> event list" where
  "print_menu d level prefix out = print_menu_loop 1 d level prefix out"
| "print_menu_loop i [] level prefix out = out"
| "print_menu_loop i ((k, v) # rest) level prefix out =
     (case v of
        Interior kids \<Rightarrow>
          print_menu_loop (i + 1) rest level prefix
            (print_menu kids (level + 1) (prefix @ str_of_nat i @ ''.'')
               (py_print (category_line level prefix i k) out))
      | Leaf s \<Rightarrow>
          print_menu_loop (i + 1) rest level prefix
            (py_print (snippet_line level prefix i k) out))"

section \<open>main\<close>

datatype outcome = Returned | Raised pyerr

definition quit_tokens :: "string list" where
  "quit_tokens = [''q'', ''quit'', ''exit'', []]"

definition no_tokens :: "string list" where
  "no_tokens = [''n'', ''no'']"

definition invalid_selection :: string where
  "invalid_selection = ''Invalid selection.'' @ [CHR 0x0A]"

definition copied :: string where
  "copied = ''(copied)'' @ [CHR 0x0A]"

definition banner :: string where
  "banner = ''Clean Snippet Builder  (q = quit)'' @ [CHR 0x0A]"

text \<open>
  The \<open>while True\<close> loop of \<open>main\<close>. \<open>stdin\<close> holds the lines still to be read; \<open>input\<close> on
  the empty list raises \<open>EOFError\<close>. \<open>pyperclip\<close> says whether the module can be imported;
  its \<open>copy\<close> is taken to succeed. An exception that nothing catches ends the run
  (\<open>Raised\<close>): \<open>code.strip()\<close> on a dict raises \<open>AttributeError\<close> after the top rule is
  printed. Signals (\<open>KeyboardInterrupt\<close>) are not modelled.
\<close>

function main_loop :: "items \<Rightarrow> bool \<Rightarrow> string list \<Rightarrow> event list \<Rightarrow> outcome \<times> event list" where
  "main_loop SNIPPETS pyperclip stdin out0 =
     (let out1 = py_print [] (print_menu SNIPPETS 0 [] out0) @ [Input SelectionPrompt]
      in case stdin of
           [] \<Rightarrow> (Raised EOFError, out1)
         | line # stdin1 \<Rightarrow>
             (let choice = strip line
              in if lower choice \<in> set quit_tokens then (Returned, out1)
                 else
                   (case get_nested (Interior SNIPPETS) choice of
                      Inl e \<Rightarrow> main_loop SNIPPETS pyperclip stdin1 (py_print invalid_selection out1)
                    | Inr snippet \<Rightarrow>
                        (let out2 = out1 @ [PrintRuleTop]
                         in case snippet of
                              Interior kids \<Rightarrow> (Raised AttributeError, out2)
                            | Leaf code \<Rightarrow>
                                (let out3 = py_print (strip code) out2 @ [PrintRuleBottom, Input CopyPrompt]
                                 in case stdin1 of
                                      [] \<Rightarrow> (Raised EOFError, out3)
                                    | answer # stdin2 \<Rightarrow>
                                        (let out4 =
                                               (if lower (strip answer) \<notin> set no_tokens
                                                then (if pyperclip
                                                      then py_print copied (out3 @ [ClipboardCopy (strip code)])
                                                      else out3 @ [PrintInstallHint])
                                                else out3) @ [Input AnotherPrompt]
                                         in case stdin2 of
                                              [] \<Rightarrow> (Raised EOFError, out4)
                                            | again # stdin3 \<Rightarrow>
                                                if lower (strip again) \<in> set no_tokens
                                                then (Returned, out4)
                                                else main_loop SNIPPETS pyperclip stdin3
                                                       (out4 @ [PrintSeparator])))))))"
  by pat_completeness auto
termination
  by (relation "measure (\<lambda>(c, p, stdin, out). length stdin)") auto

declare main_loop.simps [simp del]

definition main :: "items \<Rightarrow> bool \<Rightarrow> string list \<Rightarrow> outcome \<times> event list" where
  "main SNIPPETS pyperclip stdin = main_loop SNIPPETS pyperclip stdin (py_print banner [])"

section \<open>get\_nested on the heap\<close>

text \<open>
  The same function on Python's objects themselves: dicts and strings live in a heap and
  are named by their addresses, a dict holds the addresses of its values, and every
  operation takes the state of the world (the heap and what was printed) and returns it.
  \<open>list(current.values())\<close> builds a list that is dropped at once; it is kept as a value.
\<close>

type_synonym addr = nat

datatype pyobj = Str string | Dict "(string \<times> addr) list"

record world =
  heap :: "addr \<Rightarrow> pyobj"
  printed :: "event list"

definition dict_values :: "addr \<Rightarrow> world \<Rightarrow> (pyerr + addr list) \<times> world" where
  "dict_values a w =
     (case heap w a of
        Dict kvs \<Rightarrow> (Inr (map snd kvs), w)
      | Str s \<Rightarrow> (Inl AttributeError, w))"

definition subscript :: "addr \<Rightarrow> string \<Rightarrow> world \<Rightarrow> (pyerr + addr) \<times> world" where
  "subscript a key w =
     (case heap w a of
        Dict kvs \<Rightarrow> (dict_getitem kvs key, w)
      | Str s \<Rightarrow> (Inl TypeError, w))"

definition get_nested_step_w :: "addr \<Rightarrow> string \<Rightarrow> world \<Rightarrow> (pyerr + addr) \<times> world" where
  "get_nested_step_w current part w =
     (if isdigit part then
        (case int_of_digits part of
           None \<Rightarrow> (Inl ValueError, w)
         | Some n \<Rightarrow>
             (let idx = int n - 1
              in case dict_values current w of
                   (Inl e, w1) \<Rightarrow> (Inl e, w1)
                 | (Inr vals, w1) \<Rightarrow> (list_getitem vals idx, w1)))
      else subscript current part w)"

fun get_nested_loop_w :: "addr \<Rightarrow> string list \<Rightarrow> world \<Rightarrow> (pyerr + addr) \<times> world" where
  "get_nested_loop_w current [] w = (Inr current, w)"
| "get_nested_loop_w current (part # parts) w =
     (case get_nested_step_w current part w of
        (Inl e, w1) \<Rightarrow> (Inl e, w1)
      | (Inr nxt, w1) \<Rightarrow> get_nested_loop_w nxt parts w1)"

definition get_nested_w :: "addr \<Rightarrow> string \<Rightarrow> world \<Rightarrow> (pyerr + addr) \<times> world" where
  "get_nested_w d path w = get_nested_loop_w d (split (CHR ''.'') path) w"

text \<open>\<open>represents h a n\<close>: the object at address \<open>a\<close> of the heap \<open>h\<close> is the tree \<open>n\<close>.\<close>

inductive represents :: "(addr \<Rightarrow> pyobj) \<Rightarrow> addr \<Rightarrow> node \<Rightarrow> bool" where
  str: "h a = Str s \<Longrightarrow> represents h a (Leaf s)"
| dict: "h a = Dict kvs
         \<Longrightarrow> list_all2 (\<lambda>kv kn. fst kv = fst kn \<and> represents h (snd kv) (snd kn)) kvs kids
         \<Longrightarrow> represents h a (Interior kids)"

section \<open>Notions used to state the properties\<close>

text \<open>What \<open>print_menu\<close> prints for one child, numbered \<open>i\<close>.\<close>

definition child_lines :: "nat \<Rightarrow> string \<Rightarrow> nat \<Rightarrow> string \<times> node \<Rightarrow> event list" where
  "child_lines level prefix i kv =
     (case snd kv of
        Interior kids \<Rightarrow>
          Print (category_line level prefix i (fst kv))
            # print_menu kids (level + 1) (prefix @ str_of_nat i @ ''.'') []
      | Leaf s \<Rightarrow> [Print (snippet_line level prefix i (fst kv))])"

text \<open>
  \<open>reaches root ps ns t\<close>: going down from \<open>root\<close> through the children at the 1-based
  positions \<open>ps\<close>, whose keys are \<open>ns\<close>, ends at the node \<open>t\<close>.
\<close>

inductive reaches :: "node \<Rightarrow> nat list \<Rightarrow> string list \<Rightarrow> node \<Rightarrow> bool" where
  here: "reaches n [] [] n"
| child: "i < length kids \<Longrightarrow> kids ! i = (k, v) \<Longrightarrow> reaches v ps ns t
          \<Longrightarrow> reaches (Interior kids) (Suc i # ps) (k # ns) t"

text \<open>The shape of a catalog: its keys, their order and the nesting, without the snippet texts.\<close>

fun shape :: "node \<Rightarrow> node" where
  "shape (Leaf s) = Leaf []"
| "shape (Interior kids) = Interior (map (\<lambda>kv. (fst kv, shape (snd kv))) kids)"

definition shape_items :: "items \<Rightarrow> items" where
  "shape_items d = map (\<lambda>kv. (fst kv, shape (snd kv))) d"

text \<open>
  The output of \<open>main_loop\<close> at three points of one pass: after the menu and the
  selection prompt, after the snippet and the copy prompt, and after the answer to the copy
  prompt was handled and the last prompt was shown.
\<close>

definition menu_shown :: "items \<Rightarrow> event list \<Rightarrow> event list" where
  "menu_shown SNIPPETS out = print_menu SNIPPETS 0 [] out @ [Print [], Input SelectionPrompt]"

definition snippet_shown :: "items \<Rightarrow> event list \<Rightarrow> string \<Rightarrow> event list" where
  "snippet_shown SNIPPETS out code =
     menu_shown SNIPPETS out @ [PrintRuleTop, Print (strip code), PrintRuleBottom, Input CopyPrompt]"

definition copy_answered :: "items \<Rightarrow> event list \<Rightarrow> string \<Rightarrow> bool \<Rightarrow> string \<Rightarrow> event list" where
  "copy_answered SNIPPETS out code pyperclip answer =
     snippet_shown SNIPPETS out code
       @ (if lower (strip answer) \<in> set no_tokens then []
          else if pyperclip then [ClipboardCopy (strip code), Print copied]
          else [PrintInstallHint])
       @ [Input AnotherPrompt]"

text \<open>
  Every \<open>pyperclip.copy(t)\<close> comes right after \<open>print(t)\<close>, the bottom rule and the copy
  prompt.
\<close>

definition copies_follow_display :: "event list \<Rightarrow> bool" where
  "copies_follow_display evs =
     (\<forall>i < length evs.
        case evs ! i of
          ClipboardCopy t \<Rightarrow>
            3 \<le> i \<and> evs ! (i - 3) = Print t \<and> evs ! (i - 2) = PrintRuleBottom
              \<and> evs ! (i - 1) = Input CopyPrompt
        | _ \<Rightarrow> True)"

definition is_copy :: "event \<Rightarrow> bool" where
  "is_copy e = (case e of ClipboardCopy t \<Rightarrow> True | _ \<Rightarrow> False)"

section \<open>Strings: lemmas\<close>

lemma of_char_digit_char: "d < 10 \<Longrightarrow> (of_char (digit_char d) :: nat) = 48 + d"
  by (simp add: digit_char_def)

lemma isdecimal_char_digit_char: "d < 10 \<Longrightarrow> isdecimal_char (digit_char d)"
  by (simp add: isdecimal_char_def of_char_digit_char)

lemma digit_value_digit_char: "d < 10 \<Longrightarrow> digit_value (digit_char d) = d"
  by (simp add: digit_value_def of_char_digit_char)

lemma decimal_value_snoc: "decimal_value (s @ [c]) = 10 * decimal_value s + digit_value c"
  by (simp add: decimal_value_def)

lemma str_of_nat_nonempty: "str_of_nat n \<noteq> []"
  by (subst str_of_nat.simps) simp

lemma str_of_nat_decimal_chars: "list_all isdecimal_char (str_of_nat n)"
proof (induction n rule: str_of_nat.induct)
  case (1 n)
  show ?case
  proof (cases "n < 10")
    case True
    then show ?thesis
      by (subst str_of_nat.simps) (simp add: isdecimal_char_digit_char)
  next
    case False
    with 1 show ?thesis
      by (subst str_of_nat.simps) (simp add: isdecimal_char_digit_char)
  qed
qed

lemma isdecimal_str_of_nat: "isdecimal (str_of_nat n)"
  by (simp add: isdecimal_def str_of_nat_nonempty str_of_nat_decimal_chars)

lemma isdecimal_isdigit: "isdecimal s \<Longrightarrow> isdigit s"
  by (auto simp: isdecimal_def isdigit_def isdigit_char_def list_all_iff)

lemma decimal_value_str_of_nat: "decimal_value (str_of_nat n) = n"
proof (induction n rule: str_of_nat.induct)
  case (1 n)
  show ?case
  proof (cases "n < 10")
    case True
    then show ?thesis
      by (subst str_of_nat.simps) (simp add: decimal_value_def digit_value_digit_char)
  next
    case False
    with 1 show ?thesis
      by (subst str_of_nat.simps) (simp add: decimal_value_snoc digit_value_digit_char)
  qed
qed

lemma length_str_of_nat: "0 < k \<Longrightarrow> n < 10 ^ k \<Longrightarrow> length (str_of_nat n) \<le> k"
proof (induction n arbitrary: k rule: str_of_nat.induct)
  case (1 n)
  show ?case
  proof (cases "n < 10")
    case True
    then show ?thesis
      using "1.prems"(1) by (subst str_of_nat.simps) simp
  next
    case False
    obtain j where k: "k = Suc j" using "1.prems"(1) by (cases k) simp_all
    have "j \<noteq> 0"
    proof
      assume "j = 0"
      with k "1.prems"(2) have "n < 10" by simp
      with False show False by simp
    qed
    then have j: "0 < j" by simp
    have "n < 10 * 10 ^ j" using "1.prems"(2) k by simp
    then have "n div 10 < 10 ^ j" by (simp add: less_mult_imp_div_less mult.commute)
    then have "length (str_of_nat (n div 10)) \<le> j"
      using "1.IH" [OF False j] by simp
    then show ?thesis
      using False k by (subst str_of_nat.simps) simp
  qed
qed

lemma int_max_str_digits_pos: "0 < int_max_str_digits"
  by (simp add: int_max_str_digits_def)

lemma int_of_digits_str_of_nat:
  assumes "n < 10 ^ int_max_str_digits"
  shows "int_of_digits (str_of_nat n) = Some n"
proof -
  have "length (str_of_nat n) \<le> int_max_str_digits"
    using int_max_str_digits_pos assms by (rule length_str_of_nat)
  then show ?thesis
    by (simp add: int_of_digits_def isdecimal_str_of_nat decimal_value_str_of_nat)
qed

lemma one_digit_below_limit:
  fixes n :: nat
  assumes "n < 10"
  shows "n < 10 ^ int_max_str_digits"
proof -
  have "(10::nat) ^ 1 \<le> 10 ^ int_max_str_digits"
    using int_max_str_digits_pos by (intro power_increasing) simp_all
  with assms show ?thesis by simp
qed

lemma position_below_limit:
  assumes "N \<le> sys_maxsize"
  shows "N < 10 ^ int_max_str_digits"
proof -
  have "N < (10::nat) ^ 19" using assms by (simp add: sys_maxsize_def)
  moreover have "(10::nat) ^ 19 \<le> 10 ^ int_max_str_digits"
    by (intro power_increasing) (simp_all add: int_max_str_digits_def)
  ultimately show ?thesis by simp
qed

lemma dot_not_decimal: "\<not> isdecimal_char (CHR ''.'')"
  by (simp add: isdecimal_char_def)

lemma str_of_nat_no_dot: "CHR ''.'' \<notin> set (str_of_nat n)"
  using str_of_nat_decimal_chars [of n] dot_not_decimal by (auto simp: list_all_iff)

lemma split_no_sep: "sep \<notin> set w \<Longrightarrow> split sep w = [w]"
  by (induction w) auto

lemma split_append_sep: "sep \<notin> set w \<Longrightarrow> split sep (w @ sep # s) = w # split sep s"
  by (induction w) auto

lemma split_join:
  "ws \<noteq> [] \<Longrightarrow> \<forall>w \<in> set ws. sep \<notin> set w \<Longrightarrow> split sep (join sep ws) = ws"
proof (induction sep ws rule: join.induct)
  case (1 sep)
  then show ?case by simp
next
  case (2 sep w)
  then show ?case by (simp add: split_no_sep)
next
  case (3 sep w v ws)
  then show ?case by (simp add: split_append_sep)
qed

lemma strip_middle:
  "dropWhile isspace s = strip s @ rev (takeWhile isspace (rev (dropWhile isspace s)))"
proof -
  let ?m = "dropWhile isspace s"
  have "rev (rev ?m) = rev (takeWhile isspace (rev ?m) @ dropWhile isspace (rev ?m))"
    by (simp only: takeWhile_dropWhile_id)
  then show ?thesis
    by (simp only: rev_append rev_rev_ident strip_def rstrip_def lstrip_def)
qed

lemma strip_decompose:
  "s = takeWhile isspace s @ strip s @ rev (takeWhile isspace (rev (dropWhile isspace s)))"
proof -
  have "s = takeWhile isspace s @ dropWhile isspace s" by simp
  then show ?thesis using strip_middle [of s] by metis
qed

lemma strip_hd: "strip s \<noteq> [] \<Longrightarrow> \<not> isspace (hd (strip s))"
proof -
  assume ne: "strip s \<noteq> []"
  let ?m = "dropWhile isspace s"
  have "hd ?m = hd (strip s)"
    using strip_middle [of s] ne by (metis hd_append2)
  moreover have "?m \<noteq> []"
    using strip_middle [of s] ne by (metis append_is_Nil_conv)
  ultimately show ?thesis
    using hd_dropWhile [of isspace s] by simp
qed

lemma strip_last: "strip s \<noteq> [] \<Longrightarrow> \<not> isspace (last (strip s))"
proof -
  assume ne: "strip s \<noteq> []"
  let ?d = "dropWhile isspace (rev (dropWhile isspace s))"
  have eq: "strip s = rev ?d"
    by (simp add: strip_def rstrip_def lstrip_def)
  with ne have "?d \<noteq> []" by simp
  then have "\<not> isspace (hd ?d)" by (rule hd_dropWhile)
  moreover have "last (strip s) = hd ?d"
    using eq \<open>?d \<noteq> []\<close> by (simp add: last_rev)
  ultimately show ?thesis by simp
qed

lemma takeWhile_all: "\<forall>c \<in> set (takeWhile P xs). P c"
  by (auto dest: set_takeWhileD)

section \<open>print\_menu: lemmas\<close>

text \<open>
  The induction rule of \<open>print_menu\<close> runs over all four arguments. The statements below
  quantify over the output, so \<open>x\<close> and \<open>y\<close> only stand in its place for the rule.
\<close>

lemma print_menu_out_all:
  fixes x y :: "event list"
  shows "\<forall>out. print_menu d level prefix out = out @ print_menu d level prefix []"
    and "\<forall>out. print_menu_loop i rest level prefix out = out @ print_menu_loop i rest level prefix []"
proof (induct d level prefix x and i rest level prefix y
       rule: print_menu_print_menu_loop.induct)
  case (1 d level prefix out)
  show ?case unfolding print_menu.simps(1) using 1 by blast
next
  case (2 i level prefix out)
  show ?case by simp
next
  case (3 i k v rest level prefix out)
  show ?case
  proof (cases v)
    case (Leaf s)
    have loop: "\<And>out. print_menu_loop (i + 1) rest level prefix out
                  = out @ print_menu_loop (i + 1) rest level prefix []"
      using 3(1) [OF Leaf] by blast
    show ?thesis
    proof
      fix out
      show "print_menu_loop i ((k, v) # rest) level prefix out
            = out @ print_menu_loop i ((k, v) # rest) level prefix []"
        using Leaf loop [of "py_print (snippet_line level prefix i k) out"]
          loop [of "py_print (snippet_line level prefix i k) []"]
        by (simp add: py_print_def)
    qed
  next
    case (Interior kids)
    have loop: "\<And>out. print_menu_loop (i + 1) rest level prefix out
                  = out @ print_menu_loop (i + 1) rest level prefix []"
      using 3(3) [OF Interior] by blast
    have sub: "\<And>out. print_menu kids (level + 1) (prefix @ str_of_nat i @ ''.'') out
                  = out @ print_menu kids (level + 1) (prefix @ str_of_nat i @ ''.'') []"
      using 3(2) [OF Interior] by blast
    show ?thesis
    proof
      fix out
      let ?sub = "print_menu kids (level + 1) (prefix @ str_of_nat i @ ''.'')"
      let ?l = "category_line level prefix i k"
      have "print_menu_loop i ((k, v) # rest) level prefix out
            = ?sub (py_print ?l out) @ print_menu_loop (i + 1) rest level prefix []"
        using Interior loop [of "?sub (py_print ?l out)"] by simp
      also have "?sub (py_print ?l out) = out @ [Print ?l] @ ?sub []"
        using sub [of "py_print ?l out"] by (simp add: py_print_def)
      finally have a: "print_menu_loop i ((k, v) # rest) level prefix out
            = out @ [Print ?l] @ ?sub [] @ print_menu_loop (i + 1) rest level prefix []"
        by simp
      have "print_menu_loop i ((k, v) # rest) level prefix []
            = ?sub (py_print ?l []) @ print_menu_loop (i + 1) rest level prefix []"
        using Interior loop [of "?sub (py_print ?l [])"] by simp
      also have "?sub (py_print ?l []) = [Print ?l] @ ?sub []"
        using sub [of "py_print ?l []"] by (simp add: py_print_def)
      finally have b: "print_menu_loop i ((k, v) # rest) level prefix []
            = [Print ?l] @ ?sub [] @ print_menu_loop (i + 1) rest level prefix []"
        by simp
      show "print_menu_loop i ((k, v) # rest) level prefix out
            = out @ print_menu_loop i ((k, v) # rest) level prefix []"
        using a b by simp
    qed
  qed
qed

lemma print_menu_out:
  "print_menu d level prefix out = out @ print_menu d level prefix []"
  using print_menu_out_all(1) by blast

lemma print_menu_loop_out:
  "print_menu_loop i rest level prefix out = out @ print_menu_loop i rest level prefix []"
  using print_menu_out_all(2) by blast

lemma print_menu_loop_Cons:
  "print_menu_loop i (kv # rest) level prefix []
     = child_lines level prefix i kv @ print_menu_loop (Suc i) rest level prefix []"
proof (cases kv)
  case (Pair k v)
  show ?thesis
  proof (cases v)
    case (Leaf s)
    then show ?thesis
      using Pair print_menu_loop_out [of "Suc i" rest level prefix "[Print (snippet_line level prefix i k)]"]
      by (simp add: child_lines_def py_print_def)
  next
    case (Interior kids)
    let ?sub = "print_menu kids (level + 1) (prefix @ str_of_nat i @ ''.'')"
    let ?l = "category_line level prefix i k"
    have "print_menu_loop i (kv # rest) level prefix []
            = ?sub [Print ?l] @ print_menu_loop (Suc i) rest level prefix []"
      using Pair Interior print_menu_loop_out [of "Suc i" rest level prefix "?sub [Print ?l]"]
      by (simp add: py_print_def)
    also have "?sub [Print ?l] = Print ?l # ?sub []"
      using print_menu_out [of kids "level + 1" "prefix @ str_of_nat i @ ''.''" "[Print ?l]"] by simp
    finally show ?thesis using Pair Interior by (simp add: child_lines_def)
  qed
qed

lemma print_menu_loop_append:
  "print_menu_loop i (xs @ ys) level prefix []
     = print_menu_loop i xs level prefix [] @ print_menu_loop (i + length xs) ys level prefix []"
proof (induction xs arbitrary: i)
  case Nil
  then show ?case by simp
next
  case (Cons kv xs)
  show ?case
    using Cons [of "Suc i"] by (simp add: print_menu_loop_Cons del: print_menu_loop.simps)
qed

lemma print_menu_loop_concat:
  "print_menu_loop i rest level prefix []
     = concat (map (\<lambda>(j, kv). child_lines level prefix j kv) (zip [i ..< i + length rest] rest))"
proof (induction rest arbitrary: i)
  case Nil
  then show ?case by simp
next
  case (Cons kv rest)
  have "[i ..< i + length (kv # rest)] = i # [Suc i ..< Suc i + length rest]"
    by (simp add: upt_rec)
  then show ?case
    using Cons [of "Suc i"] by (simp add: print_menu_loop_Cons del: print_menu_loop.simps)
qed

lemma child_lines_shape:
  assumes "fst kv = fst kv'" and "shape (snd kv) = shape (snd kv')"
    and "\<And>kids kids'. snd kv = Interior kids \<Longrightarrow> snd kv' = Interior kids'
           \<Longrightarrow> print_menu kids (level + 1) (prefix @ str_of_nat i @ ''.'') []
             = print_menu kids' (level + 1) (prefix @ str_of_nat i @ ''.'') []"
  shows "child_lines level prefix i kv = child_lines level prefix i kv'"
proof (cases "snd kv")
  case (Leaf s)
  with assms(2) obtain s' where "snd kv' = Leaf s'" by (cases "snd kv'") auto
  with Leaf assms(1) show ?thesis by (simp add: child_lines_def)
next
  case (Interior kids)
  with assms(2) obtain kids' where "snd kv' = Interior kids'" by (cases "snd kv'") auto
  with Interior assms(1) assms(3) show ?thesis by (simp add: child_lines_def)
qed

lemma print_menu_shape_all:
  fixes x y :: "event list"
  shows "\<forall>d'. shape_items d = shape_items d'
           \<longrightarrow> print_menu d level prefix [] = print_menu d' level prefix []"
    and "\<forall>rest'. shape_items rest = shape_items rest'
           \<longrightarrow> print_menu_loop i rest level prefix [] = print_menu_loop i rest' level prefix []"
proof (induct d level prefix x and i rest level prefix y
       rule: print_menu_print_menu_loop.induct)
  case (1 d level prefix out)
  then show ?case unfolding print_menu.simps(1) by blast
next
  case (2 i level prefix out)
  show ?case by (simp add: shape_items_def)
next
  case (3 i k v rest level prefix out)
  show ?case
  proof (intro allI impI)
    fix rest'
    assume eq: "shape_items ((k, v) # rest) = shape_items rest'"
    then obtain k' v' rest'' where r': "rest' = (k', v') # rest''"
      by (cases rest') (auto simp: shape_items_def)
    from eq r' have kk: "k = k'" and vv: "shape v = shape v'"
      and rr: "shape_items rest = shape_items rest''"
      by (simp_all add: shape_items_def)
    have loop: "print_menu_loop (Suc i) rest level prefix []
                = print_menu_loop (Suc i) rest'' level prefix []"
    proof (cases v)
      case (Leaf s)
      from 3(1) [OF Leaf] rr show ?thesis by simp
    next
      case (Interior kids)
      from 3(3) [OF Interior] rr show ?thesis by simp
    qed
    have "child_lines level prefix i (k, v) = child_lines level prefix i (k', v')"
    proof (rule child_lines_shape)
      show "fst (k, v) = fst (k', v')" using kk by simp
      show "shape (snd (k, v)) = shape (snd (k', v'))" using vv by simp
    next
      fix kids kids'
      assume a: "snd (k, v) = Interior kids" and b: "snd (k', v') = Interior kids'"
      then have "shape_items kids = shape_items kids'"
        using vv by (simp add: shape_items_def)
      moreover from a have "v = Interior kids" by simp
      ultimately show "print_menu kids (level + 1) (prefix @ str_of_nat i @ ''.'') []
             = print_menu kids' (level + 1) (prefix @ str_of_nat i @ ''.'') []"
        using 3(2) by blast
    qed
    with loop show "print_menu_loop i ((k, v) # rest) level prefix []
                    = print_menu_loop i rest' level prefix []"
      unfolding r' print_menu_loop_Cons by simp
  qed
qed

lemma print_menu_shape:
  "shape_items d = shape_items d' \<Longrightarrow> print_menu d level prefix [] = print_menu d' level prefix []"
  using print_menu_shape_all(1) by blast


section \<open>get\_nested: lemmas\<close>

lemma get_nested_single: "CHR ''.'' \<notin> set part \<Longrightarrow> get_nested d part = get_nested_step d part"
  by (simp add: get_nested_def split_no_sep split: sum.splits)

lemma list_getitem_in_range: "i < length xs \<Longrightarrow> list_getitem xs (int i) = Inr (xs ! i)"
  by (simp add: list_getitem_def)

lemma list_getitem_above: "int (length xs) \<le> i \<Longrightarrow> list_getitem xs i = Inl IndexError"
  by (simp add: list_getitem_def)

lemma list_getitem_minus_one: "xs \<noteq> [] \<Longrightarrow> list_getitem xs (- 1) = Inr (last xs)"
  by (cases xs rule: rev_cases) (simp_all add: list_getitem_def)

lemma list_getitem_minus_one_empty: "list_getitem [] (- 1) = Inl IndexError"
  by (simp add: list_getitem_def)

lemma step_int_Interior:
  "int_of_digits part = Some n \<Longrightarrow>
   get_nested_step (Interior kids) part = list_getitem (map snd kids) (int n - 1)"
  by (auto simp: get_nested_step_def isdecimal_isdigit int_of_digits_def split: if_splits)

lemma step_decimal_Interior:
  "isdecimal part \<Longrightarrow> length part \<le> int_max_str_digits \<Longrightarrow>
   get_nested_step (Interior kids) part = list_getitem (map snd kids) (int (decimal_value part) - 1)"
  by (rule step_int_Interior) (simp add: int_of_digits_def)

lemma step_too_many_digits:
  "isdecimal part \<Longrightarrow> int_max_str_digits < length part \<Longrightarrow>
   get_nested_step current part = Inl ValueError"
  by (simp add: get_nested_step_def isdecimal_isdigit int_of_digits_def)

lemma step_position:
  assumes "1 \<le> N" and "N \<le> length kids" and "N < 10 ^ int_max_str_digits"
  shows "get_nested_step (Interior kids) (str_of_nat N) = Inr (snd (kids ! (N - 1)))"
proof -
  have "int N - 1 = int (N - 1)" using assms by simp
  moreover have "N - 1 < length (map snd kids)" using assms by simp
  ultimately show ?thesis
    using list_getitem_in_range [of "N - 1" "map snd kids"] assms
    by (simp add: step_int_Interior [OF int_of_digits_str_of_nat])
qed

lemma step_above_range:
  assumes "isdecimal part" and "length part \<le> int_max_str_digits"
    and "length kids < decimal_value part"
  shows "get_nested_step (Interior kids) part = Inl IndexError"
  using assms by (simp add: step_decimal_Interior list_getitem_above)

lemma step_zero_last:
  assumes "isdecimal part" and "length part \<le> int_max_str_digits"
    and "decimal_value part = 0" and "kids \<noteq> []"
  shows "get_nested_step (Interior kids) part = Inr (snd (last kids))"
  using assms by (simp add: step_decimal_Interior list_getitem_minus_one last_map)

lemma step_zero_empty:
  assumes "isdecimal part" and "length part \<le> int_max_str_digits"
    and "decimal_value part = 0"
  shows "get_nested_step (Interior []) part = Inl IndexError"
  using assms by (simp add: step_decimal_Interior list_getitem_minus_one_empty)

lemma step_name:
  assumes "\<not> isdigit part" and "distinct (map fst kids)" and "i < length kids" and "kids ! i = (part, v)"
  shows "get_nested_step (Interior kids) part = Inr v"
proof -
  have "(part, v) \<in> set kids" using assms(3,4) by (metis nth_mem)
  then have "map_of kids part = Some v" using assms(2) by simp
  then show ?thesis using assms(1) by (simp add: get_nested_step_def dict_getitem_def)
qed

lemma step_Leaf:
  "get_nested_step (Leaf s) part =
     Inl (if isdigit part
          then (if isdecimal part \<and> length part \<le> int_max_str_digits
                then AttributeError else ValueError)
          else TypeError)"
  by (simp add: get_nested_step_def int_of_digits_def)

lemma get_nested_loop_append:
  "get_nested_loop d (pre @ rest) =
     (case get_nested_loop d pre of Inl e \<Rightarrow> Inl e | Inr n \<Rightarrow> get_nested_loop n rest)"
  by (induction pre arbitrary: d) (auto split: sum.splits)

lemma past_leaf_exception:
  assumes "get_nested_loop root pre = Inr (Leaf s)"
    and "split (CHR ''.'') path = pre @ part # parts"
  shows "get_nested root path =
           Inl (if isdigit part
                then (if isdecimal part \<and> length part \<le> int_max_str_digits
                      then AttributeError else ValueError)
                else TypeError)"
  using assms by (simp add: get_nested_def get_nested_loop_append step_Leaf)

lemma wf_node_child:
  "wf_node (Interior kids) \<Longrightarrow> i < length kids \<Longrightarrow> kids ! i = (k, v) \<Longrightarrow> wf_node v"
  by (auto simp: list_all_length dest!: spec [of _ i])

lemma reaches_positions:
  "reaches root ps ns t \<Longrightarrow> \<forall>p \<in> set ps. p < 10 ^ int_max_str_digits
     \<Longrightarrow> get_nested_loop root (map str_of_nat ps) = Inr t"
proof (induction rule: reaches.induct)
  case (here n)
  then show ?case by simp
next
  case (child i kids k v ps ns t)
  have "get_nested_step (Interior kids) (str_of_nat (Suc i)) = Inr (snd (kids ! (Suc i - 1)))"
    using child.hyps(1) child.prems by (intro step_position) simp_all
  then show ?case using child by simp
qed

lemma reaches_names:
  "reaches root ps ns t \<Longrightarrow> wf_node root \<Longrightarrow> \<forall>n \<in> set ns. \<not> isdigit n
     \<Longrightarrow> get_nested_loop root ns = Inr t"
proof (induction rule: reaches.induct)
  case (here n)
  then show ?case by simp
next
  case (child i kids k v ps ns t)
  have "get_nested_step (Interior kids) k = Inr v"
    using child.hyps(1,2) child.prems by (intro step_name [of k kids i v]) simp_all
  moreover have "wf_node v"
    using child.prems(1) child.hyps(1,2) by (rule wf_node_child)
  ultimately show ?case using child by simp
qed

lemma reaches_Leaf_nonempty:
  "reaches (Interior kids) ps ns (Leaf s) \<Longrightarrow> ps \<noteq> [] \<and> ns \<noteq> []"
  by (erule reaches.cases) simp_all

section \<open>get\_nested on the heap: lemmas\<close>

lemma dict_values_frame: "snd (dict_values a w) = w"
  by (simp add: dict_values_def split: pyobj.splits)

lemma subscript_frame: "snd (subscript a key w) = w"
  by (simp add: subscript_def split: pyobj.splits)

lemma get_nested_step_w_frame: "snd (get_nested_step_w current part w) = w"
proof (cases "dict_values current w")
  case (Pair r w1)
  then have "w1 = w" using dict_values_frame [of current w] by simp
  with Pair show ?thesis
    by (simp add: get_nested_step_w_def subscript_frame split: option.splits sum.splits)
qed

lemma get_nested_loop_w_frame: "snd (get_nested_loop_w current parts w) = w"
proof (induction parts arbitrary: current)
  case Nil
  show ?case by simp
next
  case (Cons part parts)
  obtain r w1 where s: "get_nested_step_w current part w = (r, w1)"
    by (cases "get_nested_step_w current part w")
  then have "w1 = w" using get_nested_step_w_frame [of current part w] by simp
  with s Cons show ?case by (cases r) simp_all
qed

lemma list_getitem_rel:
  assumes "list_all2 R xs ys"
  shows "rel_sum (=) R (list_getitem xs i) (list_getitem ys i)"
proof -
  have len: "length xs = length ys" using assms by (rule list_all2_lengthD)
  have nth: "\<And>j. j < length ys \<Longrightarrow> R (xs ! j) (ys ! j)"
    using assms len by (simp add: list_all2_nthD2)
  show ?thesis
    using len nth by (auto simp: list_getitem_def)
qed

lemma dict_getitem_rel:
  assumes "list_all2 (\<lambda>kv kn. fst kv = fst kn \<and> R (snd kv) (snd kn)) kvs kids"
  shows "rel_sum (=) R (dict_getitem kvs key) (dict_getitem kids key)"
  using assms
proof (induction rule: list_all2_induct)
  case Nil
  show ?case by (simp add: dict_getitem_def)
next
  case (Cons kv kvs kn kids)
  then show ?case
    by (cases kv; cases kn) (auto simp: dict_getitem_def)
qed

lemma get_nested_step_w_refines:
  assumes "represents (heap w) a n"
  shows "rel_sum (=) (represents (heap w)) (fst (get_nested_step_w a part w)) (get_nested_step n part)"
  using assms
proof (cases rule: represents.cases)
  case (str s)
  then show ?thesis
    by (simp add: get_nested_step_w_def get_nested_step_def dict_values_def subscript_def
             split: option.splits)
next
  case (dict kvs kids)
  have vals: "list_all2 (represents (heap w)) (map snd kvs) (map snd kids)"
    using dict(3) by (simp add: list_all2_map1 list_all2_map2 list_all2_mono)
  show ?thesis
    using dict list_getitem_rel [OF vals] dict_getitem_rel [OF dict(3)]
    by (simp add: get_nested_step_w_def get_nested_step_def dict_values_def subscript_def
             split: option.splits)
qed

lemma get_nested_loop_w_refines:
  assumes "represents (heap w) a n"
  shows "rel_sum (=) (represents (heap w)) (fst (get_nested_loop_w a parts w)) (get_nested_loop n parts)"
  using assms
proof (induction parts arbitrary: a n)
  case Nil
  then show ?case by simp
next
  case (Cons part parts)
  obtain r w1 where s: "get_nested_step_w a part w = (r, w1)"
    by (cases "get_nested_step_w a part w")
  then have w1: "w1 = w" using get_nested_step_w_frame [of a part w] by simp
  have rel: "rel_sum (=) (represents (heap w)) r (get_nested_step n part)"
    using get_nested_step_w_refines [OF Cons.prems, of part] s by simp
  show ?case
  proof (cases r)
    case (Inl e)
    with rel s show ?thesis by (cases "get_nested_step n part") simp_all
  next
    case (Inr a')
    with rel obtain n' where n': "get_nested_step n part = Inr n'" "represents (heap w) a' n'"
      by (cases "get_nested_step n part") simp_all
    with Cons.IH [OF n'(2)] s Inr w1 show ?thesis by simp
  qed
qed

lemma get_nested_w_refines:
  "represents (heap w) d root
   \<Longrightarrow> rel_sum (=) (represents (heap w)) (fst (get_nested_w d path w)) (get_nested root path)"
  by (simp add: get_nested_w_def get_nested_def get_nested_loop_w_refines)

section \<open>main: lemmas\<close>

lemma main_loop_eof:
  "main_loop SNIPPETS pyperclip [] out = (Raised EOFError, menu_shown SNIPPETS out)"
  by (subst main_loop.simps) (simp add: menu_shown_def py_print_def)

lemma main_loop_quit:
  "lower (strip line) \<in> set quit_tokens
   \<Longrightarrow> main_loop SNIPPETS pyperclip (line # stdin) out = (Returned, menu_shown SNIPPETS out)"
  by (subst main_loop.simps) (simp add: menu_shown_def py_print_def)

lemma main_loop_invalid:
  "lower (strip line) \<notin> set quit_tokens
   \<Longrightarrow> get_nested (Interior SNIPPETS) (strip line) = Inl e
   \<Longrightarrow> main_loop SNIPPETS pyperclip (line # stdin) out
       = main_loop SNIPPETS pyperclip stdin (menu_shown SNIPPETS out @ [Print invalid_selection])"
  by (subst main_loop.simps) (simp add: menu_shown_def py_print_def)

lemma main_loop_category:
  "lower (strip line) \<notin> set quit_tokens
   \<Longrightarrow> get_nested (Interior SNIPPETS) (strip line) = Inr (Interior kids)
   \<Longrightarrow> main_loop SNIPPETS pyperclip (line # stdin) out
       = (Raised AttributeError, menu_shown SNIPPETS out @ [PrintRuleTop])"
  by (subst main_loop.simps) (simp add: menu_shown_def py_print_def)

lemma main_loop_snippet_eof:
  "lower (strip line) \<notin> set quit_tokens
   \<Longrightarrow> get_nested (Interior SNIPPETS) (strip line) = Inr (Leaf code)
   \<Longrightarrow> main_loop SNIPPETS pyperclip [line] out = (Raised EOFError, snippet_shown SNIPPETS out code)"
  by (subst main_loop.simps) (simp add: snippet_shown_def menu_shown_def py_print_def)

lemma main_loop_copy_eof:
  "lower (strip line) \<notin> set quit_tokens
   \<Longrightarrow> get_nested (Interior SNIPPETS) (strip line) = Inr (Leaf code)
   \<Longrightarrow> main_loop SNIPPETS pyperclip [line, answer] out
       = (Raised EOFError, copy_answered SNIPPETS out code pyperclip answer)"
  by (subst main_loop.simps)
     (simp add: copy_answered_def snippet_shown_def menu_shown_def py_print_def)

lemma main_loop_stop:
  "lower (strip line) \<notin> set quit_tokens
   \<Longrightarrow> get_nested (Interior SNIPPETS) (strip line) = Inr (Leaf code)
   \<Longrightarrow> lower (strip again) \<in> set no_tokens
   \<Longrightarrow> main_loop SNIPPETS pyperclip (line # answer # again # stdin) out
       = (Returned, copy_answered SNIPPETS out code pyperclip answer)"
  by (subst main_loop.simps)
     (simp add: copy_answered_def snippet_shown_def menu_shown_def py_print_def)

lemma main_loop_another:
  "lower (strip line) \<notin> set quit_tokens
   \<Longrightarrow> get_nested (Interior SNIPPETS) (strip line) = Inr (Leaf code)
   \<Longrightarrow> lower (strip again) \<notin> set no_tokens
   \<Longrightarrow> main_loop SNIPPETS pyperclip (line # answer # again # stdin) out
       = main_loop SNIPPETS pyperclip stdin
           (copy_answered SNIPPETS out code pyperclip answer @ [PrintSeparator])"
  by (subst main_loop.simps)
     (simp add: copy_answered_def snippet_shown_def menu_shown_def py_print_def)

lemma session_induct [case_names eof quit invalid category snippet_eof copy_eof stop another]:
  assumes eof: "\<And>out. P [] out"
    and quit: "\<And>line stdin out. lower (strip line) \<in> set quit_tokens \<Longrightarrow> P (line # stdin) out"
    and invalid: "\<And>line stdin out e.
           lower (strip line) \<notin> set quit_tokens
           \<Longrightarrow> get_nested (Interior SNIPPETS) (strip line) = Inl e
           \<Longrightarrow> P stdin (menu_shown SNIPPETS out @ [Print invalid_selection])
           \<Longrightarrow> P (line # stdin) out"
    and category: "\<And>line stdin out kids.
           lower (strip line) \<notin> set quit_tokens
           \<Longrightarrow> get_nested (Interior SNIPPETS) (strip line) = Inr (Interior kids)
           \<Longrightarrow> P (line # stdin) out"
    and snippet_eof: "\<And>line out code.
           lower (strip line) \<notin> set quit_tokens
           \<Longrightarrow> get_nested (Interior SNIPPETS) (strip line) = Inr (Leaf code)
           \<Longrightarrow> P [line] out"
    and copy_eof: "\<And>line answer out code.
           lower (strip line) \<notin> set quit_tokens
           \<Longrightarrow> get_nested (Interior SNIPPETS) (strip line) = Inr (Leaf code)
           \<Longrightarrow> P [line, answer] out"
    and stop: "\<And>line answer again stdin out code.
           lower (strip line) \<notin> set quit_tokens
           \<Longrightarrow> get_nested (Interior SNIPPETS) (strip line) = Inr (Leaf code)
           \<Longrightarrow> lower (strip again) \<in> set no_tokens
           \<Longrightarrow> P (line # answer # again # stdin) out"
    and another: "\<And>line answer again stdin out code.
           lower (strip line) \<notin> set quit_tokens
           \<Longrightarrow> get_nested (Interior SNIPPETS) (strip line) = Inr (Leaf code)
           \<Longrightarrow> lower (strip again) \<notin> set no_tokens
           \<Longrightarrow> P stdin (copy_answered SNIPPETS out code pyperclip answer @ [PrintSeparator])
           \<Longrightarrow> P (line # answer # again # stdin) out"
  shows "P stdin out"
proof (induction "length stdin" arbitrary: stdin out rule: less_induct)
  case (less stdin out)
  show ?case
  proof (cases stdin)
    case Nil
    then show ?thesis using eof by simp
  next
    case (Cons line stdin1)
    show ?thesis
    proof (cases "lower (strip line) \<in> set quit_tokens")
      case True
      then show ?thesis using quit Cons by simp
    next
      case nq: False
      show ?thesis
      proof (cases "get_nested (Interior SNIPPETS) (strip line)")
        case (Inl e)
        have "P stdin1 (menu_shown SNIPPETS out @ [Print invalid_selection])"
          using Cons by (intro less) simp
        then show ?thesis using invalid [OF nq Inl] Cons by simp
      next
        case (Inr snippet)
        show ?thesis
        proof (cases snippet)
          case (Interior kids)
          then show ?thesis using category [OF nq] Inr Cons by simp
        next
          case (Leaf code)
          note lf = Inr [unfolded Leaf]
          show ?thesis
          proof (cases stdin1)
            case Nil
            then show ?thesis using snippet_eof [OF nq lf] Cons by simp
          next
            case c1: (Cons answer stdin2)
            show ?thesis
            proof (cases stdin2)
              case Nil
              then show ?thesis using copy_eof [OF nq lf] Cons c1 by simp
            next
              case c2: (Cons again stdin3)
              show ?thesis
              proof (cases "lower (strip again) \<in> set no_tokens")
                case True
                then show ?thesis using stop [OF nq lf] Cons c1 c2 by simp
              next
                case False
                have "P stdin3 (copy_answered SNIPPETS out code pyperclip answer @ [PrintSeparator])"
                  using Cons c1 c2 by (intro less) simp
                then show ?thesis using another [OF nq lf False] Cons c1 c2 by simp
              qed
            qed
          qed
        qed
      qed
    qed
  qed
qed

lemma menu_shown_extends:
  "menu_shown SNIPPETS out = out @ print_menu SNIPPETS 0 [] [] @ [Print [], Input SelectionPrompt]"
  using print_menu_out [of SNIPPETS 0 "[]" out] by (simp add: menu_shown_def)

lemma copy_answered_extends:
  "\<exists>mid. copy_answered SNIPPETS out code pyperclip answer = snippet_shown SNIPPETS out code @ mid"
  by (simp add: copy_answered_def)

lemma snippet_shown_extends:
  "\<exists>mid. snippet_shown SNIPPETS out code = out @ mid"
  by (simp add: snippet_shown_def menu_shown_extends)

lemma main_loop_extends: "\<exists>later. snd (main_loop SNIPPETS pyperclip stdin out) = out @ later"
proof (induction stdin out rule: session_induct [where SNIPPETS = SNIPPETS and pyperclip = pyperclip])
  case (eof out)
  show ?case by (simp add: main_loop_eof menu_shown_extends)
next
  case (quit line stdin out)
  then show ?case by (simp add: main_loop_quit menu_shown_extends)
next
  case (invalid line stdin out e)
  then show ?case by (auto simp: main_loop_invalid menu_shown_extends)
next
  case (category line stdin out kids)
  then show ?case by (simp add: main_loop_category menu_shown_extends)
next
  case (snippet_eof line out code)
  then show ?case using snippet_shown_extends [of SNIPPETS out code]
    by (simp add: main_loop_snippet_eof)
next
  case (copy_eof line answer out code)
  then show ?case
    using snippet_shown_extends [of SNIPPETS out code]
      copy_answered_extends [of SNIPPETS out code pyperclip answer]
    by (auto simp: main_loop_copy_eof)
next
  case (stop line answer again stdin out code)
  then show ?case
    using snippet_shown_extends [of SNIPPETS out code]
      copy_answered_extends [of SNIPPETS out code pyperclip answer]
    by (auto simp: main_loop_stop)
next
  case (another line answer again stdin out code)
  then show ?case
    using snippet_shown_extends [of SNIPPETS out code]
      copy_answered_extends [of SNIPPETS out code pyperclip answer]
    by (auto simp: main_loop_another)
qed

lemma cfd_append_no_copy:
  assumes "copies_follow_display evs" and "\<forall>e \<in> set es. \<not> is_copy e"
  shows "copies_follow_display (evs @ es)"
  unfolding copies_follow_display_def
proof (intro allI impI)
  fix i assume i: "i < length (evs @ es)"
  show "case (evs @ es) ! i of
          ClipboardCopy t \<Rightarrow>
            3 \<le> i \<and> (evs @ es) ! (i - 3) = Print t \<and> (evs @ es) ! (i - 2) = PrintRuleBottom
              \<and> (evs @ es) ! (i - 1) = Input CopyPrompt
        | _ \<Rightarrow> True"
  proof (cases "i < length evs")
    case True
    then have "case evs ! i of
          ClipboardCopy t \<Rightarrow>
            3 \<le> i \<and> evs ! (i - 3) = Print t \<and> evs ! (i - 2) = PrintRuleBottom
              \<and> evs ! (i - 1) = Input CopyPrompt
        | _ \<Rightarrow> True"
      using assms(1) by (simp add: copies_follow_display_def)
    then show ?thesis using True
      by (auto simp: nth_append split: event.splits)
  next
    case False
    then have "(evs @ es) ! i = es ! (i - length evs)" by (simp add: nth_append)
    moreover have "es ! (i - length evs) \<in> set es" using i False by simp
    ultimately have "\<not> is_copy ((evs @ es) ! i)" using assms(2) by simp
    then show ?thesis by (simp add: is_copy_def split: event.splits)
  qed
qed

lemma cfd_snoc_copy:
  assumes "copies_follow_display l" and "3 \<le> length l"
    and "l ! (length l - 3) = Print t" and "l ! (length l - 2) = PrintRuleBottom"
    and "l ! (length l - 1) = Input CopyPrompt"
  shows "copies_follow_display (l @ [ClipboardCopy t])"
  unfolding copies_follow_display_def
proof (intro allI impI)
  fix i assume i: "i < length (l @ [ClipboardCopy t])"
  show "case (l @ [ClipboardCopy t]) ! i of
          ClipboardCopy u \<Rightarrow>
            3 \<le> i \<and> (l @ [ClipboardCopy t]) ! (i - 3) = Print u
              \<and> (l @ [ClipboardCopy t]) ! (i - 2) = PrintRuleBottom
              \<and> (l @ [ClipboardCopy t]) ! (i - 1) = Input CopyPrompt
        | _ \<Rightarrow> True"
  proof (cases "i < length l")
    case True
    have old: "case l ! i of
          ClipboardCopy u \<Rightarrow>
            3 \<le> i \<and> l ! (i - 3) = Print u \<and> l ! (i - 2) = PrintRuleBottom
              \<and> l ! (i - 1) = Input CopyPrompt
        | _ \<Rightarrow> True"
      using assms(1) True unfolding copies_follow_display_def by blast
    have n: "(l @ [ClipboardCopy t]) ! i = l ! i"
      "(l @ [ClipboardCopy t]) ! (i - 3) = l ! (i - 3)"
      "(l @ [ClipboardCopy t]) ! (i - 2) = l ! (i - 2)"
      "(l @ [ClipboardCopy t]) ! (i - 1) = l ! (i - 1)"
      using True less_imp_diff_less [of i "length l"] by (simp_all add: nth_append)
    show ?thesis unfolding n using old .
  next
    case False
    then have il: "i = length l" using i by simp
    have n: "(l @ [ClipboardCopy t]) ! i = ClipboardCopy t"
      "(l @ [ClipboardCopy t]) ! (i - 3) = l ! (length l - 3)"
      "(l @ [ClipboardCopy t]) ! (i - 2) = l ! (length l - 2)"
      "(l @ [ClipboardCopy t]) ! (i - 1) = l ! (length l - 1)"
      using il assms(2) by (auto simp: nth_append)
    show ?thesis unfolding n using assms(2-5) il by simp
  qed
qed

lemma cfd_copy:
  assumes "copies_follow_display evs"
  shows "copies_follow_display (evs @ [Print t, PrintRuleBottom, Input CopyPrompt, ClipboardCopy t])"
proof -
  let ?l = "evs @ [Print t, PrintRuleBottom, Input CopyPrompt]"
  have a: "copies_follow_display ?l"
    using assms by (rule cfd_append_no_copy) (simp add: is_copy_def)
  have "copies_follow_display (?l @ [ClipboardCopy t])"
  proof (rule cfd_snoc_copy [OF a])
    show "3 \<le> length ?l" by simp
    show "?l ! (length ?l - 3) = Print t" by (simp add: nth_append)
    show "?l ! (length ?l - 2) = PrintRuleBottom" by (simp add: nth_append)
    show "?l ! (length ?l - 1) = Input CopyPrompt" by (simp add: nth_append)
  qed
  then show ?thesis by simp
qed

lemma print_menu_no_copy_all:
  fixes x y :: "event list"
  shows "\<forall>e \<in> set (print_menu d level prefix []). \<not> is_copy e"
    and "\<forall>e \<in> set (print_menu_loop i rest level prefix []). \<not> is_copy e"
proof (induct d level prefix x and i rest level prefix y
       rule: print_menu_print_menu_loop.induct)
  case (1 d level prefix out)
  then show ?case by simp
next
  case (2 i level prefix out)
  show ?case by simp
next
  case (3 i k v rest level prefix out)
  have "\<forall>e \<in> set (print_menu_loop (Suc i) rest level prefix []). \<not> is_copy e"
    using 3(1,3) by (cases v) simp_all
  moreover have "\<forall>e \<in> set (child_lines level prefix i (k, v)). \<not> is_copy e"
    using 3(2) by (cases v) (simp_all add: child_lines_def is_copy_def)
  ultimately show ?case
    unfolding print_menu_loop_Cons by auto
qed

lemma cfd_menu_shown:
  "copies_follow_display out \<Longrightarrow> copies_follow_display (menu_shown SNIPPETS out)"
  unfolding menu_shown_extends
  by (rule cfd_append_no_copy) (use print_menu_no_copy_all(1) in \<open>auto simp: is_copy_def\<close>)

lemma cfd_snippet_shown:
  "copies_follow_display out \<Longrightarrow> copies_follow_display (snippet_shown SNIPPETS out code)"
  unfolding snippet_shown_def
  by (rule cfd_append_no_copy [OF cfd_menu_shown]) (simp_all add: is_copy_def)

lemma cfd_copy_answered:
  assumes "copies_follow_display out"
  shows "copies_follow_display (copy_answered SNIPPETS out code pyperclip answer)"
proof (cases "lower (strip answer) \<notin> set no_tokens \<and> pyperclip")
  case True
  let ?m = "menu_shown SNIPPETS out @ [PrintRuleTop]"
  have "copies_follow_display ?m"
    by (rule cfd_append_no_copy [OF cfd_menu_shown [OF assms]]) (simp add: is_copy_def)
  then have "copies_follow_display
               (?m @ [Print (strip code), PrintRuleBottom, Input CopyPrompt, ClipboardCopy (strip code)])"
    by (rule cfd_copy)
  then have "copies_follow_display
               ((?m @ [Print (strip code), PrintRuleBottom, Input CopyPrompt, ClipboardCopy (strip code)])
                 @ [Print copied, Input AnotherPrompt])"
    by (rule cfd_append_no_copy) (simp add: is_copy_def)
  then show ?thesis using True by (simp add: copy_answered_def snippet_shown_def)
next
  case False
  have "copies_follow_display
          (snippet_shown SNIPPETS out code
            @ ((if lower (strip answer) \<in> set no_tokens then []
                else if pyperclip then [ClipboardCopy (strip code), Print copied]
                else [PrintInstallHint]) @ [Input AnotherPrompt]))"
    using False by (intro cfd_append_no_copy cfd_snippet_shown assms) (auto simp: is_copy_def)
  then show ?thesis by (simp add: copy_answered_def)
qed

lemma cfd_snoc: "copies_follow_display out \<Longrightarrow> \<not> is_copy e \<Longrightarrow> copies_follow_display (out @ [e])"
  by (rule cfd_append_no_copy) simp_all

lemma main_loop_copies_follow_display:
  "copies_follow_display out \<Longrightarrow> copies_follow_display (snd (main_loop SNIPPETS pyperclip stdin out))"
proof (induction stdin out rule: session_induct [where SNIPPETS = SNIPPETS and pyperclip = pyperclip])
  case (eof out)
  then show ?case by (simp add: main_loop_eof cfd_menu_shown)
next
  case (quit line stdin out)
  then show ?case by (simp add: main_loop_quit cfd_menu_shown)
next
  case (invalid line stdin out e)
  then show ?case by (simp add: main_loop_invalid cfd_menu_shown cfd_snoc is_copy_def)
next
  case (category line stdin out kids)
  then show ?case by (simp add: main_loop_category cfd_menu_shown cfd_snoc is_copy_def)
next
  case (snippet_eof line out code)
  then show ?case by (simp add: main_loop_snippet_eof cfd_snippet_shown)
next
  case (copy_eof line answer out code)
  then show ?case by (simp add: main_loop_copy_eof cfd_copy_answered)
next
  case (stop line answer again stdin out code)
  then show ?case by (simp add: main_loop_stop cfd_copy_answered)
next
  case (another line answer again stdin out code)
  then show ?case by (simp add: main_loop_another cfd_copy_answered cfd_snoc is_copy_def)
qed

lemma main_loop_snippet_prefix:
  assumes "lower (strip line) \<notin> set quit_tokens"
    and "get_nested (Interior SNIPPETS) (strip line) = Inr (Leaf code)"
  shows "\<exists>later. snd (main_loop SNIPPETS pyperclip (line # stdin) out)
                   = snippet_shown SNIPPETS out code @ later"
proof (cases stdin)
  case Nil
  then show ?thesis using assms by (simp add: main_loop_snippet_eof)
next
  case c1: (Cons answer stdin2)
  obtain mid where mid: "copy_answered SNIPPETS out code pyperclip answer
                           = snippet_shown SNIPPETS out code @ mid"
    using copy_answered_extends by blast
  show ?thesis
  proof (cases stdin2)
    case Nil
    then show ?thesis using assms c1 mid by (simp add: main_loop_copy_eof)
  next
    case c2: (Cons again stdin3)
    show ?thesis
    proof (cases "lower (strip again) \<in> set no_tokens")
      case True
      then show ?thesis using assms c1 c2 mid by (simp add: main_loop_stop)
    next
      case False
      obtain later where "snd (main_loop SNIPPETS pyperclip stdin3
             (copy_answered SNIPPETS out code pyperclip answer @ [PrintSeparator]))
           = (copy_answered SNIPPETS out code pyperclip answer @ [PrintSeparator]) @ later"
        using main_loop_extends by blast
      then show ?thesis using assms c1 c2 mid False by (simp add: main_loop_another)
    qed
  qed
qed

lemma main_loop_copy_prefix:
  assumes "lower (strip line) \<notin> set quit_tokens"
    and "get_nested (Interior SNIPPETS) (strip line) = Inr (Leaf code)"
  shows "\<exists>later. snd (main_loop SNIPPETS pyperclip (line # answer # stdin) out)
                   = copy_answered SNIPPETS out code pyperclip answer @ later"
proof (cases stdin)
  case Nil
  then show ?thesis using assms by (simp add: main_loop_copy_eof)
next
  case c2: (Cons again stdin3)
  show ?thesis
  proof (cases "lower (strip again) \<in> set no_tokens")
    case True
    then show ?thesis using assms c2 by (simp add: main_loop_stop)
  next
    case False
    obtain later where "snd (main_loop SNIPPETS pyperclip stdin3
           (copy_answered SNIPPETS out code pyperclip answer @ [PrintSeparator]))
         = (copy_answered SNIPPETS out code pyperclip answer @ [PrintSeparator]) @ later"
      using main_loop_extends by blast
    then show ?thesis using assms c2 False by (simp add: main_loop_another)
  qed
qed

section \<open>Properties\<close>

subsection \<open>C1: numeric segments outside the range of the children\<close>

text \<open>
  C1 says that at an Interior node with \<open>child_count\<close> children every digit-only segment
  whose value is below 1 or above \<open>child_count\<close> fails with an index error. Above the
  range \<open>get_nested\<close> does raise \<open>IndexError\<close> (\<open>step_above_range\<close>, for a segment of
  at most \<open>int_max_str_digits\<close> digits; a longer one raises \<open>ValueError\<close>). The segment
  \<open>0\<close> gives the index \<open>-1\<close>, which Python reads from the end of the list: on a node
  with children it returns the last child (\<open>step_zero_last\<close>), as here on a catalog
  of two snippets.
\<close>

theorem get_nested_zero_returns_last_child:
  "get_nested (Interior [(''A'', Leaf ''x''), (''B'', Leaf ''y'')]) ''0'' = Inr (Leaf ''y'')
   \<and> get_nested (Interior [(''A'', Leaf ''x''), (''B'', Leaf ''y'')]) ''3'' = Inl IndexError"
  by code_simp

subsection \<open>C2: selecting a category\<close>

text \<open>
  C2 says that a selection that resolves to a category (a dict) is answered with the
  invalid-selection message and a new prompt. \<open>main\<close> prints the top rule and then
  evaluates \<open>code.strip()\<close> on the dict, which raises \<open>AttributeError\<close> outside the
  \<open>try\<close>: the run ends there (\<open>main_loop_category\<close> for every catalog), as here on the
  selection \<open>1\<close>.
\<close>

theorem main_category_selection_raises:
  "main [(''A'', Interior [(''x1'', Leaf ''  hello  '')]), (''B'', Interior [])] True [''1'']
     = (Raised AttributeError,
        [Print banner, Print ''1) A/'', Print ''  1.1) x1'', Print ''2) B/'', Print [],
         Input SelectionPrompt, PrintRuleTop])"
  by code_simp

subsection \<open>C3: the lines of the menu\<close>

text \<open>
  C3: for a dict \<open>kids\<close> printed at depth \<open>d\<close> with prefix \<open>p\<close>, \<open>print_menu\<close> adds to
  the output, for each child in insertion order with its 1-based index \<open>i\<close>: for a dict
  child the line of \<open>d\<close> times two spaces, \<open>p\<close>, \<open>i\<close>, \<open>") "\<close>, the name and \<open>"/"\<close>,
  followed by the menu of that child at depth \<open>d + 1\<close> with prefix \<open>p + str(i) + "."\<close>; for
  a snippet the same line without the slash, and nothing more.
\<close>

theorem print_menu_renders_children:
  "print_menu kids d p out =
     out @ concat (map (\<lambda>(i, name, child).
                          case child of
                            Interior sub \<Rightarrow>
                              Print (concat (replicate d ''  '') @ p @ str_of_nat i @ '') '' @ name @ ''/'')
                                # print_menu sub (d + 1) (p @ str_of_nat i @ ''.'') []
                          | Leaf text \<Rightarrow>
                              [Print (concat (replicate d ''  '') @ p @ str_of_nat i @ '') '' @ name)])
                    (zip [1 ..< 1 + length kids] kids))"
proof -
  have "print_menu kids d p out = out @ print_menu_loop 1 kids d p []"
    using print_menu_out [of kids d p out] by simp
  also have "print_menu_loop 1 kids d p []
      = concat (map (\<lambda>(j, kv). child_lines d p j kv) (zip [1 ..< 1 + length kids] kids))"
    by (rule print_menu_loop_concat)
  also have "(\<lambda>(j, kv). child_lines d p j kv)
      = (\<lambda>(i, name, child).
                          case child of
                            Interior sub \<Rightarrow>
                              Print (concat (replicate d ''  '') @ p @ str_of_nat i @ '') '' @ name @ ''/'')
                                # print_menu sub (d + 1) (p @ str_of_nat i @ ''.'') []
                          | Leaf text \<Rightarrow>
                              [Print (concat (replicate d ''  '') @ p @ str_of_nat i @ '') '' @ name)])"
    by (auto simp: fun_eq_iff child_lines_def category_line_def snippet_line_def indent_def
             split: node.splits)
  finally show ?thesis .
qed

subsection \<open>C4: the two paths of a snippet\<close>

text \<open>
  C4 as stated (the dotted path of the names of every snippet resolves to that snippet)
  fails when a name holds a dot: the only child is named \<open>a.b\<close>, its position path \<open>1\<close>
  resolves to it, and its name path is split into \<open>a\<close> and \<open>b\<close> and raises \<open>KeyError\<close>.
\<close>

theorem name_path_with_dot_counterexample:
  "wf_items [(''a.b'', Leaf ''x'')]
   \<and> reaches (Interior [(''a.b'', Leaf ''x'')]) [1] [''a.b''] (Leaf ''x'')
   \<and> get_nested (Interior [(''a.b'', Leaf ''x'')]) (join (CHR ''.'') (map str_of_nat [1])) = Inr (Leaf ''x'')
   \<and> get_nested (Interior [(''a.b'', Leaf ''x'')]) (join (CHR ''.'') [''a.b'']) = Inl KeyError"
proof -
  have "reaches (Interior [(''a.b'', Leaf ''x'')]) [Suc 0] [''a.b''] (Leaf ''x'')"
    by (rule reaches.child [of 0, OF _ _ reaches.here]) simp_all
  moreover have "wf_items [(''a.b'', Leaf ''x'')]"
    by (simp add: wf_items_def)
  moreover have "get_nested (Interior [(''a.b'', Leaf ''x'')]) (join (CHR ''.'') (map str_of_nat [1])) = Inr (Leaf ''x'')"
    by code_simp
  moreover have "get_nested (Interior [(''a.b'', Leaf ''x'')]) (join (CHR ''.'') [''a.b'']) = Inl KeyError"
    by code_simp
  ultimately show ?thesis by simp
qed

text \<open>
  C4, amended: for every snippet reachable from the root dict, the dotted path of its
  1-based positions resolves to it, the positions being numbers that \<open>int\<close> reads back
  (below \<open>10 ^ int_max_str_digits\<close>, as every position in a dict of at most \<open>sys.maxsize\<close>
  items is: \<open>position_below_limit\<close>); and when the dict keys are distinct at every level
  (as in every Python dict) and no name on the way holds a dot or passes \<open>isdigit\<close>, the
  dotted path of its names resolves to the same snippet.
\<close>

theorem leaf_paths_resolve:
  assumes "reaches (Interior SNIPPETS) ps ns (Leaf payload)"
  shows "((\<forall>p \<in> set ps. p < 10 ^ int_max_str_digits)
            \<longrightarrow> get_nested (Interior SNIPPETS) (join (CHR ''.'') (map str_of_nat ps))
                  = Inr (Leaf payload))
       \<and> (wf_items SNIPPETS \<and> (\<forall>n \<in> set ns. CHR ''.'' \<notin> set n \<and> \<not> isdigit n)
            \<longrightarrow> get_nested (Interior SNIPPETS) (join (CHR ''.'') ns) = Inr (Leaf payload))"
proof (intro conjI impI)
  from assms have ne: "ps \<noteq> []" "ns \<noteq> []"
    using reaches_Leaf_nonempty by blast+
  {
    assume b: "\<forall>p \<in> set ps. p < 10 ^ int_max_str_digits"
    have "split (CHR ''.'') (join (CHR ''.'') (map str_of_nat ps)) = map str_of_nat ps"
      using ne by (intro split_join) (simp_all add: str_of_nat_no_dot)
    then show "get_nested (Interior SNIPPETS) (join (CHR ''.'') (map str_of_nat ps))
                 = Inr (Leaf payload)"
      using reaches_positions [OF assms b] by (simp add: get_nested_def)
  }
  assume a: "wf_items SNIPPETS \<and> (\<forall>n \<in> set ns. CHR ''.'' \<notin> set n \<and> \<not> isdigit n)"
  then have "split (CHR ''.'') (join (CHR ''.'') ns) = ns"
    using ne by (intro split_join) simp_all
  moreover have "get_nested_loop (Interior SNIPPETS) ns = Inr (Leaf payload)"
    using a by (intro reaches_names [OF assms]) (simp_all add: wf_items_def)
  ultimately show "get_nested (Interior SNIPPETS) (join (CHR ''.'') ns) = Inr (Leaf payload)"
    by (simp add: get_nested_def)
qed

text \<open>Witness for C4: the snippet \<open>x1\<close> of the category \<open>A\<close>, by \<open>1.1\<close> and by \<open>A.x1\<close>.\<close>

theorem leaf_paths_resolve_witness:
  "reaches (Interior [(''A'', Interior [(''x1'', Leaf ''  hello  '')]), (''B'', Interior [])])
      [1, 1] [''A'', ''x1''] (Leaf ''  hello  '')
   \<and> wf_items [(''A'', Interior [(''x1'', Leaf ''  hello  '')]), (''B'', Interior [])]
   \<and> (1::nat) < 10 ^ int_max_str_digits
   \<and> CHR ''.'' \<notin> set ''A'' \<and> \<not> isdigit ''A'' \<and> CHR ''.'' \<notin> set ''x1'' \<and> \<not> isdigit ''x1''
   \<and> get_nested (Interior [(''A'', Interior [(''x1'', Leaf ''  hello  '')]), (''B'', Interior [])]) ''1.1''
       = Inr (Leaf ''  hello  '')
   \<and> get_nested (Interior [(''A'', Interior [(''x1'', Leaf ''  hello  '')]), (''B'', Interior [])]) ''A.x1''
       = Inr (Leaf ''  hello  '')"
proof -
  let ?cat = "[(''A'', Interior [(''x1'', Leaf ''  hello  '')]), (''B'', Interior [])]"
  have "reaches (Interior [(''x1'', Leaf ''  hello  '')]) [Suc 0] [''x1''] (Leaf ''  hello  '')"
    by (rule reaches.child [of 0, OF _ _ reaches.here]) simp_all
  then have "reaches (Interior ?cat) [Suc 0, Suc 0] [''A'', ''x1''] (Leaf ''  hello  '')"
    by (intro reaches.child [of 0]) simp_all
  then have r: "reaches (Interior ?cat) [1, 1] [''A'', ''x1''] (Leaf ''  hello  '')"
    by simp
  have w: "wf_items ?cat" by (simp add: wf_items_def)
  have n: "\<forall>n \<in> set [''A'', ''x1'']. CHR ''.'' \<notin> set n \<and> \<not> isdigit n"
    by (simp add: isdigit_def isdigit_char_def isdecimal_char_def)
  have p: "join (CHR ''.'') (map str_of_nat [1, 1]) = ''1.1''" by code_simp
  have q: "join (CHR ''.'') [''A'', ''x1''] = ''A.x1''" by simp
  have b: "(1::nat) < 10 ^ int_max_str_digits"
    by (rule one_digit_below_limit) simp
  then have bs: "\<forall>p \<in> set [1, 1 :: nat]. p < 10 ^ int_max_str_digits" by simp
  from leaf_paths_resolve [OF r] w n bs
  have "get_nested (Interior ?cat) ''1.1'' = Inr (Leaf ''  hello  '')
        \<and> get_nested (Interior ?cat) ''A.x1'' = Inr (Leaf ''  hello  '')"
    unfolding p q by blast
  then show ?thesis using r w n b by simp
qed

subsection \<open>C5: the numbers of the menu are the numbers of the resolver\<close>

text \<open>
  C5: for every dict \<open>kids\<close> and every \<open>N\<close> from 1 to the number of its children (a number
  that \<open>int\<close> reads back: below \<open>10 ^ int_max_str_digits\<close>, as every position in a dict of
  at most \<open>sys.maxsize\<close> items is, by \<open>position_below_limit\<close>), the
  segment \<open>N\<close> resolves to the value of the \<open>N\<close>-th item, and the menu of \<open>kids\<close> is the
  menu of the first \<open>N - 1\<close> items, then the line numbered \<open>N\<close> that names the \<open>N\<close>-th
  item (with the menu below it when it is a category), then the lines of the items after
  it.
\<close>

theorem menu_number_matches_resolver:
  assumes "1 \<le> N" and "N \<le> length kids" and "N < 10 ^ int_max_str_digits"
  shows "get_nested (Interior kids) (str_of_nat N) = Inr (snd (kids ! (N - 1)))
       \<and> print_menu kids level prefix out
           = out @ print_menu (take (N - 1) kids) level prefix []
               @ (case snd (kids ! (N - 1)) of
                    Interior sub \<Rightarrow>
                      Print (indent level @ prefix @ str_of_nat N @ '') '' @ fst (kids ! (N - 1)) @ ''/'')
                        # print_menu sub (level + 1) (prefix @ str_of_nat N @ ''.'') []
                  | Leaf text \<Rightarrow>
                      [Print (indent level @ prefix @ str_of_nat N @ '') '' @ fst (kids ! (N - 1)))])
               @ print_menu_loop (N + 1) (drop N kids) level prefix []"
proof
  show "get_nested (Interior kids) (str_of_nat N) = Inr (snd (kids ! (N - 1)))"
    using assms by (simp add: get_nested_single str_of_nat_no_dot step_position)
next
  let ?kv = "kids ! (N - 1)"
  have lt: "N - 1 < length kids" using assms by simp
  have kids: "kids = take (N - 1) kids @ ?kv # drop N kids"
    using id_take_nth_drop [OF lt] assms by simp
  have len: "1 + length (take (N - 1) kids) = N" using assms by simp
  have "print_menu kids level prefix out = out @ print_menu_loop 1 kids level prefix []"
    using print_menu_out [of kids level prefix out] by simp
  also have "print_menu_loop 1 kids level prefix []
      = print_menu_loop 1 (take (N - 1) kids @ ?kv # drop N kids) level prefix []"
    using kids by simp
  also have "\<dots> = print_menu_loop 1 (take (N - 1) kids) level prefix []
                 @ print_menu_loop N (?kv # drop N kids) level prefix []"
    unfolding print_menu_loop_append len ..
  also have "print_menu_loop N (?kv # drop N kids) level prefix []
      = child_lines level prefix N ?kv @ print_menu_loop (N + 1) (drop N kids) level prefix []"
    by (simp add: print_menu_loop_Cons del: print_menu_loop.simps)
  finally show "print_menu kids level prefix out
           = out @ print_menu (take (N - 1) kids) level prefix []
               @ (case snd (kids ! (N - 1)) of
                    Interior sub \<Rightarrow>
                      Print (indent level @ prefix @ str_of_nat N @ '') '' @ fst (kids ! (N - 1)) @ ''/'')
                        # print_menu sub (level + 1) (prefix @ str_of_nat N @ ''.'') []
                  | Leaf text \<Rightarrow>
                      [Print (indent level @ prefix @ str_of_nat N @ '') '' @ fst (kids ! (N - 1)))])
               @ print_menu_loop (N + 1) (drop N kids) level prefix []"
    by (simp add: child_lines_def category_line_def snippet_line_def split: node.splits)
qed

text \<open>Witness for C5: the second of three children.\<close>

theorem menu_number_matches_resolver_witness:
  "(1::nat) \<le> 2 \<and> (2::nat) \<le> length [(''A'', Interior [(''x1'', Leaf ''hi'')]), (''B'', Leaf ''yo''), (''C'', Leaf ''zz'')]
   \<and> (2::nat) < 10 ^ int_max_str_digits
   \<and> get_nested (Interior [(''A'', Interior [(''x1'', Leaf ''hi'')]), (''B'', Leaf ''yo''), (''C'', Leaf ''zz'')]) ''2''
       = Inr (Leaf ''yo'')
   \<and> print_menu [(''A'', Interior [(''x1'', Leaf ''hi'')]), (''B'', Leaf ''yo''), (''C'', Leaf ''zz'')] 0 [] []
       = [Print ''1) A/'', Print ''  1.1) x1''] @ [Print ''2) B''] @ [Print ''3) C'']"
proof -
  let ?kids = "[(''A'', Interior [(''x1'', Leaf ''hi'')]), (''B'', Leaf ''yo''), (''C'', Leaf ''zz'')]"
  have h1: "(1::nat) \<le> 2" by simp
  have h2: "(2::nat) \<le> length ?kids" by simp
  have h3: "(2::nat) < 10 ^ int_max_str_digits"
    by (rule one_digit_below_limit) simp
  have s: "str_of_nat 2 = ''2''" by code_simp
  have t: "print_menu (take (2 - 1) ?kids) 0 [] [] = [Print ''1) A/'', Print ''  1.1) x1'']"
    by code_simp
  have d: "print_menu_loop (2 + 1) (drop 2 ?kids) 0 [] [] = [Print ''3) C'']"
    by code_simp
  have i: "indent 0 = []" by (simp add: indent_def)
  from menu_number_matches_resolver [OF h1 h2 h3, of 0 "[]" "[]"]
  show ?thesis
    unfolding s t d i using h3 by simp
qed

subsection \<open>C6: segments left over at a snippet\<close>

text \<open>
  C6 as stated (every path that reaches a snippet with segments left fails as
  not-a-container) fails when the next segment passes \<open>isdigit\<close> and \<open>int\<close> refuses it:
  \<open>int(part)\<close> is evaluated first and raises \<open>ValueError\<close>. That is so for a digit that
  is not decimal and for more than \<open>int_max_str_digits\<close> digits (\<open>past_leaf_exception\<close>).
  The segment here is the superscript two, U+00B2.
\<close>

theorem past_leaf_superscript_counterexample:
  "get_nested_loop (Interior [(''a'', Leaf ''x'')]) [''a''] = Inr (Leaf ''x'')
   \<and> split (CHR ''.'') (''a.'' @ [CHR 0xB2]) = [''a''] @ [CHR 0xB2] # []
   \<and> isdigit [CHR 0xB2]
   \<and> get_nested (Interior [(''a'', Leaf ''x'')]) (''a.'' @ [CHR 0xB2]) = Inl ValueError"
  by code_simp

text \<open>
  C6, amended: every path that reaches a snippet with segments left fails and returns no
  node; the exception is \<open>AttributeError\<close> (no \<open>values\<close> on a string) when the next
  segment is made of decimal digits, at most \<open>int_max_str_digits\<close> of them, and
  \<open>TypeError\<close> (a string indexed by a string) when it does not pass \<open>isdigit\<close>.
\<close>

theorem past_leaf_fails:
  assumes "get_nested_loop root pre = Inr (Leaf s)"
    and "split (CHR ''.'') path = pre @ part # parts"
  shows "(\<exists>e. get_nested root path = Inl e)
       \<and> (isdecimal part \<and> length part \<le> int_max_str_digits
            \<longrightarrow> get_nested root path = Inl AttributeError)
       \<and> (\<not> isdigit part \<longrightarrow> get_nested root path = Inl TypeError)"
  using past_leaf_exception [OF assms] by (auto simp: isdecimal_isdigit)

text \<open>Witness for C6: the path \<open>1.1.1\<close>, one segment past the snippet at \<open>1.1\<close>.\<close>

theorem past_leaf_fails_witness:
  "get_nested_loop (Interior [(''A'', Interior [(''x1'', Leaf ''  hello  '')]), (''B'', Interior [])]) [''1'', ''1'']
      = Inr (Leaf ''  hello  '')
   \<and> split (CHR ''.'') ''1.1.1'' = [''1'', ''1''] @ ''1'' # []
   \<and> isdecimal ''1'' \<and> length ''1'' \<le> int_max_str_digits
   \<and> get_nested (Interior [(''A'', Interior [(''x1'', Leaf ''  hello  '')]), (''B'', Interior [])]) ''1.1.1''
      = Inl AttributeError"
proof -
  let ?root = "Interior [(''A'', Interior [(''x1'', Leaf ''  hello  '')]), (''B'', Interior [])]"
  have a: "get_nested_loop ?root [''1'', ''1''] = Inr (Leaf ''  hello  '')" by code_simp
  have b: "split (CHR ''.'') ''1.1.1'' = [''1'', ''1''] @ ''1'' # []" by simp
  have c: "isdecimal ''1''" by (simp add: isdecimal_def isdecimal_char_def)
  have d: "length ''1'' \<le> int_max_str_digits" by (simp add: int_max_str_digits_def)
  from past_leaf_fails [OF a b] c d show ?thesis using a b by blast
qed

subsection \<open>C7: the text that is displayed\<close>

text \<open>
  C7: when the selection resolves to a snippet, \<open>main\<close> prints, between the two rules,
  \<open>strip\<close> of the stored text; the stored text is that printed text with whitespace only
  before and after it, and the printed text neither starts nor ends with whitespace.
\<close>

theorem displayed_text_is_stripped_payload:
  assumes "lower (strip line) \<notin> set quit_tokens"
    and "get_nested (Interior SNIPPETS) (strip line) = Inr (Leaf payload)"
  shows "(\<exists>later. snd (main_loop SNIPPETS pyperclip (line # stdin) out)
                    = print_menu SNIPPETS 0 [] out
                        @ [Print [], Input SelectionPrompt, PrintRuleTop, Print (strip payload),
                           PrintRuleBottom, Input CopyPrompt] @ later)
       \<and> (\<exists>before after. payload = before @ strip payload @ after
             \<and> list_all isspace before \<and> list_all isspace after)
       \<and> (strip payload \<noteq> []
            \<longrightarrow> \<not> isspace (hd (strip payload)) \<and> \<not> isspace (last (strip payload)))"
proof (intro conjI)
  show "\<exists>later. snd (main_loop SNIPPETS pyperclip (line # stdin) out)
                    = print_menu SNIPPETS 0 [] out
                        @ [Print [], Input SelectionPrompt, PrintRuleTop, Print (strip payload),
                           PrintRuleBottom, Input CopyPrompt] @ later"
    using main_loop_snippet_prefix [OF assms, of pyperclip stdin out]
    by (simp add: snippet_shown_def menu_shown_def)
  have "list_all isspace (takeWhile isspace payload)"
    using takeWhile_all [of isspace payload] by (simp add: list_all_iff)
  moreover have "list_all isspace (rev (takeWhile isspace (rev (dropWhile isspace payload))))"
    using takeWhile_all [of isspace "rev (dropWhile isspace payload)"] by (simp add: list_all_iff)
  ultimately show "\<exists>before after. payload = before @ strip payload @ after
             \<and> list_all isspace before \<and> list_all isspace after"
    using strip_decompose [of payload] by blast
  show "strip payload \<noteq> []
            \<longrightarrow> \<not> isspace (hd (strip payload)) \<and> \<not> isspace (last (strip payload))"
    using strip_hd strip_last by blast
qed

text \<open>Witness for C7: the selection \<open>1.1\<close>, typed with spaces around it.\<close>

theorem displayed_text_is_stripped_payload_witness:
  "lower (strip '' 1.1 '') \<notin> set quit_tokens
   \<and> get_nested (Interior [(''A'', Interior [(''x1'', Leaf ''  hello  '')]), (''B'', Interior [])]) (strip '' 1.1 '')
       = Inr (Leaf ''  hello  '')
   \<and> strip ''  hello  '' = ''hello''
   \<and> (\<exists>later. snd (main_loop [(''A'', Interior [(''x1'', Leaf ''  hello  '')]), (''B'', Interior [])] True
                       ['' 1.1 '', ''n'', ''n''] [])
         = [Print ''1) A/'', Print ''  1.1) x1'', Print ''2) B/'']
             @ [Print [], Input SelectionPrompt, PrintRuleTop, Print ''hello'',
                PrintRuleBottom, Input CopyPrompt] @ later)"
proof -
  let ?cat = "[(''A'', Interior [(''x1'', Leaf ''  hello  '')]), (''B'', Interior [])]"
  have a: "lower (strip '' 1.1 '') \<notin> set quit_tokens" by code_simp
  have b: "get_nested (Interior ?cat) (strip '' 1.1 '') = Inr (Leaf ''  hello  '')" by code_simp
  have c: "strip ''  hello  '' = ''hello''" by code_simp
  have d: "print_menu ?cat 0 [] [] = [Print ''1) A/'', Print ''  1.1) x1'', Print ''2) B/'']"
    by code_simp
  from displayed_text_is_stripped_payload [OF a b, of True "[''n'', ''n'']" "[]"]
  show ?thesis using a b unfolding c d by blast
qed

subsection \<open>C8: rendering is deterministic\<close>

text \<open>
  C8: the lines \<open>print_menu\<close> adds do not depend on what was printed before, and they are
  a function of the shape of the catalog alone. So a second call on a catalog of the same
  shape (the same catalog above all) adds the very lines the first call added.
\<close>

theorem print_menu_deterministic:
  assumes "shape_items d = shape_items d'"
  shows "print_menu d level prefix out = out @ print_menu d level prefix []
       \<and> print_menu d' level prefix (print_menu d level prefix out)
           = out @ print_menu d level prefix [] @ print_menu d level prefix []"
proof -
  have a: "print_menu d level prefix out = out @ print_menu d level prefix []"
    by (rule print_menu_out)
  have "print_menu d' level prefix (print_menu d level prefix out)
          = print_menu d level prefix out @ print_menu d' level prefix []"
    by (rule print_menu_out)
  also have "\<dots> = (out @ print_menu d level prefix []) @ print_menu d level prefix []"
    using a print_menu_shape [OF assms, of level prefix] by simp
  finally show ?thesis using a by simp
qed

text \<open>Witness for C8: two catalogs of one shape, printed one after the other.\<close>

theorem print_menu_deterministic_witness:
  "shape_items [(''A'', Interior [(''x1'', Leaf ''  hello  '')]), (''B'', Interior [])]
     = shape_items [(''A'', Interior [(''x1'', Leaf ''bye'')]), (''B'', Interior [])]
   \<and> print_menu [(''A'', Interior [(''x1'', Leaf ''bye'')]), (''B'', Interior [])] 0 []
       (print_menu [(''A'', Interior [(''x1'', Leaf ''  hello  '')]), (''B'', Interior [])] 0 [] [])
     = [Print ''1) A/'', Print ''  1.1) x1'', Print ''2) B/'',
        Print ''1) A/'', Print ''  1.1) x1'', Print ''2) B/'']"
proof -
  have s: "shape_items [(''A'', Interior [(''x1'', Leaf ''  hello  '')]), (''B'', Interior [])]
     = shape_items [(''A'', Interior [(''x1'', Leaf ''bye'')]), (''B'', Interior [])]"
    by (simp add: shape_items_def)
  have v: "print_menu [(''A'', Interior [(''x1'', Leaf ''  hello  '')]), (''B'', Interior [])] 0 [] []
     = [Print ''1) A/'', Print ''  1.1) x1'', Print ''2) B/'']"
    by code_simp
  show ?thesis
    using s print_menu_deterministic [OF s, of 0 "[]" "[]"] v by simp
qed

subsection \<open>C9: resolution changes nothing\<close>

text \<open>
  C9: whatever the path and whether the call succeeds or fails, the world after
  \<open>get_nested\<close> is the world before it: the heap, and so the catalog in it, is the same,
  and nothing was printed. (\<open>get_nested_w_refines\<close>: on a heap object that represents a
  tree, this function and \<open>get_nested\<close> on the tree give the same answer.)
\<close>

theorem get_nested_leaves_world_unchanged: "snd (get_nested_w d path w) = w"
  by (simp add: get_nested_w_def get_nested_loop_w_frame)

subsection \<open>C10: the text that is copied\<close>

text \<open>
  C10: in every run of \<open>main\<close>, each text handed to \<open>pyperclip.copy\<close> is the text printed
  just before it (\<open>copies_follow_display\<close>); and when a selection resolves to a snippet and
  the answer to the copy prompt is not a no, the text printed and the text copied are both
  \<open>strip\<close> of the stored text.
\<close>

theorem clipboard_text_is_displayed_text:
  "copies_follow_display (snd (main SNIPPETS pyperclip stdin))
   \<and> (lower (strip line) \<notin> set quit_tokens
        \<and> get_nested (Interior SNIPPETS) (strip line) = Inr (Leaf payload)
        \<and> lower (strip answer) \<notin> set no_tokens
      \<longrightarrow> (\<exists>later. snd (main_loop SNIPPETS True (line # answer # rest) out)
                      = print_menu SNIPPETS 0 [] out
                          @ [Print [], Input SelectionPrompt, PrintRuleTop, Print (strip payload),
                             PrintRuleBottom, Input CopyPrompt, ClipboardCopy (strip payload),
                             Print copied, Input AnotherPrompt] @ later))"
proof (intro conjI impI)
  have "copies_follow_display (py_print banner [])"
    by (simp add: copies_follow_display_def py_print_def)
  then show "copies_follow_display (snd (main SNIPPETS pyperclip stdin))"
    unfolding main_def by (rule main_loop_copies_follow_display)
next
  assume a: "lower (strip line) \<notin> set quit_tokens
        \<and> get_nested (Interior SNIPPETS) (strip line) = Inr (Leaf payload)
        \<and> lower (strip answer) \<notin> set no_tokens"
  then have "\<exists>later. snd (main_loop SNIPPETS True (line # answer # rest) out)
                   = copy_answered SNIPPETS out payload True answer @ later"
    by (intro main_loop_copy_prefix) simp_all
  then show "\<exists>later. snd (main_loop SNIPPETS True (line # answer # rest) out)
                      = print_menu SNIPPETS 0 [] out
                          @ [Print [], Input SelectionPrompt, PrintRuleTop, Print (strip payload),
                             PrintRuleBottom, Input CopyPrompt, ClipboardCopy (strip payload),
                             Print copied, Input AnotherPrompt] @ later"
    using a by (simp add: copy_answered_def snippet_shown_def menu_shown_def)
qed

text \<open>Witness for C10: the selection \<open>1.1\<close>, answered with \<open>Y\<close>.\<close>

theorem clipboard_text_is_displayed_text_witness:
  "lower (strip ''1.1'') \<notin> set quit_tokens
   \<and> get_nested (Interior [(''A'', Interior [(''x1'', Leaf ''  hello  '')]), (''B'', Interior [])]) (strip ''1.1'')
       = Inr (Leaf ''  hello  '')
   \<and> lower (strip ''Y'') \<notin> set no_tokens
   \<and> copies_follow_display
        (snd (main [(''A'', Interior [(''x1'', Leaf ''  hello  '')]), (''B'', Interior [])] True
                [''1.1'', ''Y'', ''n'']))
   \<and> (\<exists>later. snd (main_loop [(''A'', Interior [(''x1'', Leaf ''  hello  '')]), (''B'', Interior [])] True
                       [''1.1'', ''Y'', ''n''] [])
         = [Print ''1) A/'', Print ''  1.1) x1'', Print ''2) B/'']
             @ [Print [], Input SelectionPrompt, PrintRuleTop, Print ''hello'', PrintRuleBottom,
                Input CopyPrompt, ClipboardCopy ''hello'', Print copied, Input AnotherPrompt] @ later)"
proof -
  let ?cat = "[(''A'', Interior [(''x1'', Leaf ''  hello  '')]), (''B'', Interior [])]"
  have a: "lower (strip ''1.1'') \<notin> set quit_tokens" by code_simp
  have b: "get_nested (Interior ?cat) (strip ''1.1'') = Inr (Leaf ''  hello  '')" by code_simp
  have c: "lower (strip ''Y'') \<notin> set no_tokens" by code_simp
  have d: "print_menu ?cat 0 [] [] = [Print ''1) A/'', Print ''  1.1) x1'', Print ''2) B/'']"
    by code_simp
  have e: "strip ''  hello  '' = ''hello''" by code_simp
  from clipboard_text_is_displayed_text
         [of ?cat True "[''1.1'', ''Y'', ''n'']" "''1.1''" "''  hello  ''" "''Y''" "[''n'']" "[]"]
  show ?thesis using a b c unfolding d e by blast
qed

end
